theory Spec2Isabelle
  imports Main
begin

section \<open>Data model\<close>

text \<open>
  The two scripts work on what \<^verbatim>\<open>json.load\<close> returns. A Python \<^verbatim>\<open>str\<close> is a
  sequence of Unicode code points, so a string is a list of code points here; \<open>str\<close>
  turns an ASCII literal into one.
\<close>

type_synonym pychar = nat
type_synonym pystr = "pychar list"

definition str :: "string \<Rightarrow> pystr" where
  "str s = map of_char s"

text \<open>
  A \<^verbatim>\<open>dict\<close> keeps its items in insertion order and the walks below follow that
  order, so a dictionary is the list of its items. Python's \<^verbatim>\<open>None\<close> is \<open>JNull\<close>.
  The payload of a float is never inspected by the scripts; it is kept as the text of
  the number.
\<close>

datatype json =
    JNull
  | JBool bool
  | JInt int
  | JFloat pystr
  | JStr pystr
  | JList "json list"
  | JDict "(pystr \<times> json) list"

text \<open>
  What \<^verbatim>\<open>open\<close> and \<^verbatim>\<open>json.load\<close> raise when a source cannot be read or parsed, and
  what \<^verbatim>\<open>print\<close> raises for a text that standard output cannot encode.
\<close>

datatype exn = OSError | UnicodeDecodeError | JSONDecodeError | UnicodeEncodeError

type_synonym source = "exn + json"

section \<open>check\_translation\_consistency.py\<close>

text \<open>
  The three walks build the path of a key with the same expression,
  \<^verbatim>\<open>f"{prefix}.{key}" if prefix else key\<close>; a string is true when it is not empty.
\<close>

definition dot :: pychar where
  "dot = 46"

definition current_key :: "pystr \<Rightarrow> pystr \<Rightarrow> pystr" where
  "current_key prefix key = (if prefix \<noteq> [] then prefix @ [dot] @ key else key)"

text \<open>
  \<^verbatim>\<open>get_all_keys(data, prefix="")\<close>: the second function is the \<^verbatim>\<open>for\<close> loop over
  \<^verbatim>\<open>data.items()\<close>.
\<close>

fun get_all_keys :: "json \<Rightarrow> pystr \<Rightarrow> pystr list"
  and get_all_keys_items :: "(pystr \<times> json) list \<Rightarrow> pystr \<Rightarrow> pystr list" where
  "get_all_keys (JDict items) prefix = get_all_keys_items items prefix"
| "get_all_keys _ prefix = []"
| "get_all_keys_items [] prefix = []"
| "get_all_keys_items ((key, val) # rest) prefix =
     current_key prefix key
       # (case val of
            JDict _ \<Rightarrow> get_all_keys val (current_key prefix key)
          | _ \<Rightarrow> [])
       @ get_all_keys_items rest prefix"

text \<open>
  \<^verbatim>\<open>check_duplicate_keys(data, prefix="", found_keys=None)\<close>. The dictionary
  \<^verbatim>\<open>found_keys\<close> is shared by all recursive calls and updated in place; here it is
  passed in and returned.
\<close>

type_synonym found = "pystr \<rightharpoonup> bool"

fun check_duplicate_keys :: "json \<Rightarrow> pystr \<Rightarrow> found \<Rightarrow> pystr list \<times> found"
  and check_duplicate_keys_items ::
    "(pystr \<times> json) list \<Rightarrow> pystr \<Rightarrow> found \<Rightarrow> pystr list \<times> found" where
  "check_duplicate_keys (JDict items) prefix found_keys =
     check_duplicate_keys_items items prefix found_keys"
| "check_duplicate_keys _ prefix found_keys = ([], found_keys)"
| "check_duplicate_keys_items [] prefix found_keys = ([], found_keys)"
| "check_duplicate_keys_items ((key, val) # rest) prefix found_keys =
     (let ck = current_key prefix key;
          (dups1, found1) =
            (if found_keys ck \<noteq> None then ([ck], found_keys)
             else ([], found_keys(ck \<mapsto> True)));
          (dups2, found2) =
            (case val of
               JDict _ \<Rightarrow> check_duplicate_keys val ck found1
             | _ \<Rightarrow> ([], found1));
          (dups3, found3) = check_duplicate_keys_items rest prefix found2
      in (dups1 @ dups2 @ dups3, found3))"

text \<open>
  \<^verbatim>\<open>load_translations()\<close>: the arguments are the outcomes of opening and parsing the
  two files, German first. Any exception gives \<^verbatim>\<open>(None, None)\<close>.
\<close>

definition load_translations :: "source \<Rightarrow> source \<Rightarrow> json \<times> json" where
  "load_translations de_src en_src =
     (case de_src of
        Inl e \<Rightarrow> (JNull, JNull)
      | Inr de_data \<Rightarrow>
          (case en_src of
             Inl e \<Rightarrow> (JNull, JNull)
           | Inr en_data \<Rightarrow> (de_data, en_data)))"

text \<open>
  \<^verbatim>\<open>str.strip()\<close> removes the code points that Python counts as whitespace from both
  ends.
\<close>

definition isspace :: "pychar \<Rightarrow> bool" where
  "isspace c \<longleftrightarrow>
     (9 \<le> c \<and> c \<le> 13) \<or> (28 \<le> c \<and> c \<le> 32) \<or> c = 133 \<or> c = 160 \<or> c = 5760
     \<or> (8192 \<le> c \<and> c \<le> 8202) \<or> c = 8232 \<or> c = 8233 \<or> c = 8239 \<or> c = 8287
     \<or> c = 12288"

definition strip :: "pystr \<Rightarrow> pystr" where
  "strip s = rev (dropWhile isspace (rev (dropWhile isspace s)))"

text \<open>The local function \<^verbatim>\<open>check_empty_values(data, prefix="", lang_name="")\<close> of \<^verbatim>\<open>main\<close>.\<close>

fun check_empty_values :: "json \<Rightarrow> pystr \<Rightarrow> pystr \<Rightarrow> pystr list"
  and check_empty_values_items :: "(pystr \<times> json) list \<Rightarrow> pystr \<Rightarrow> pystr \<Rightarrow> pystr list" where
  "check_empty_values (JDict items) prefix lang_name =
     check_empty_values_items items prefix lang_name"
| "check_empty_values _ prefix lang_name = []"
| "check_empty_values_items [] prefix lang_name = []"
| "check_empty_values_items ((key, val) # rest) prefix lang_name =
     (case val of
        JDict _ \<Rightarrow> check_empty_values val (current_key prefix key) lang_name
      | JStr s \<Rightarrow> (if strip s = [] then [current_key prefix key] else [])
      | _ \<Rightarrow> [])
     @ check_empty_values_items rest prefix lang_name"

text \<open>
  \<^verbatim>\<open>main()\<close> prints its report. The report is kept here as the values that the
  printed lines are made of; an entry of \<^verbatim>\<open>issues\<close> is the kind of the line and the
  count in it.
\<close>

datatype issue =
    DeDuplicates nat
  | EnDuplicates nat
  | OnlyDe nat
  | OnlyEn nat
  | DeEmpty nat
  | EnEmpty nat

record report =
  de_keys :: "pystr set"
  en_keys :: "pystr set"
  de_duplicates :: "pystr list"
  en_duplicates :: "pystr list"
  only_de :: "pystr set"
  only_en :: "pystr set"
  common_keys :: "pystr set"
  de_empty :: "pystr list"
  en_empty :: "pystr list"
  issues :: "issue list"

text \<open>Lines 147 to 159: the list \<^verbatim>\<open>issues\<close>, built from the six collected findings.\<close>

definition collect_issues ::
  "pystr list \<Rightarrow> pystr list \<Rightarrow> pystr set \<Rightarrow> pystr set \<Rightarrow> pystr list \<Rightarrow> pystr list \<Rightarrow> issue list" where
  "collect_issues de_dups en_dups o_de o_en de_emp en_emp =
     (if de_dups \<noteq> [] then [DeDuplicates (length de_dups)] else [])
     @ (if en_dups \<noteq> [] then [EnDuplicates (length en_dups)] else [])
     @ (if o_de \<noteq> {} then [OnlyDe (card o_de)] else [])
     @ (if o_en \<noteq> {} then [OnlyEn (card o_en)] else [])
     @ (if de_emp \<noteq> [] then [DeEmpty (length de_emp)] else [])
     @ (if en_emp \<noteq> [] then [EnEmpty (length en_emp)] else [])"

text \<open>
  Lines 92 to 94: the keys of the first set only, those of the second only, and the
  common ones.
\<close>

definition structural_diff :: "pystr set \<Rightarrow> pystr set \<Rightarrow> pystr set \<times> pystr set \<times> pystr set" where
  "structural_diff a b = (a - b, b - a, a \<inter> b)"

text \<open>
  \<^verbatim>\<open>main()\<close>: \<open>None\<close> is the early \<^verbatim>\<open>return\<close> of line 60, taken before any check
  runs.
\<close>

definition main :: "source \<Rightarrow> source \<Rightarrow> report option" where
  "main de_src en_src =
     (let (de_data, en_data) = load_translations de_src en_src in
      if de_data = JNull \<or> en_data = JNull then None
      else
        let dk = set (get_all_keys de_data []);
            ek = set (get_all_keys en_data []);
            de_dups = fst (check_duplicate_keys de_data [] Map.empty);
            en_dups = fst (check_duplicate_keys en_data [] Map.empty);
            (o_de, o_en, common) = structural_diff dk ek;
            de_emp = check_empty_values de_data [] (str ''Deutsch'');
            en_emp = check_empty_values en_data [] (str ''Englisch'')
        in Some \<lparr>de_keys = dk, en_keys = ek,
                 de_duplicates = de_dups, en_duplicates = en_dups,
                 only_de = o_de, only_en = o_en, common_keys = common,
                 de_empty = de_emp, en_empty = en_emp,
                 issues = collect_issues de_dups en_dups o_de o_en de_emp en_emp\<rparr>)"

text \<open>The verdict printed last: the success lines appear when \<^verbatim>\<open>issues\<close> is empty.\<close>

definition passed :: "report \<Rightarrow> bool" where
  "passed r \<longleftrightarrow> issues r = []"

section \<open>validate\_import\_keys.py\<close>

definition required_keys :: "pystr list" where
  "required_keys = map str
     [''import.options.merge_strategy_description'',
      ''import.options.basic_options'',
      ''import.options.basic_options_description'',
      ''import.options.advanced_options_description'',
      ''import.options.summary_description'',
      ''import.progress.validation'',
      ''import.progress.validation_description'',
      ''import.progress.backup'',
      ''import.progress.backup_description'',
      ''import.progress.import'',
      ''import.progress.import_description'',
      ''import.progress.finalize'',
      ''import.progress.finalize_description'',
      ''import.dialog.progress_aria_label'',
      ''import.card.toggle_expand'',
      ''import.card.options_count'',
      ''import.preview.toggle_card'',
      ''import.preview.conflicts_subtitle'',
      ''import.preview.no_conflicts'',
      ''import.preview.stops_subtitle'',
      ''import.preview.view_all'',
      ''import.categories.settings'',
      ''import.categories.safety'',
      ''import.categories.filtering'',
      ''import.categories.layout'',
      ''import.categories.default'',
      ''import.loading.dialog'',
      ''import.loading.confirmation'',
      ''import.loading.preview'',
      ''import.loading.options'',
      ''import.loading.component_error'',
      ''import.loading.unknown_error'']"

text \<open>\<^verbatim>\<open>key_path.split('.')\<close>: the pieces between the separators, at least one piece.\<close>

fun split :: "pystr \<Rightarrow> pychar \<Rightarrow> pystr list" where
  "split [] sep = [[]]"
| "split (c # cs) sep =
     (if c = sep then [] # split cs sep
      else (case split cs sep of
              w # ws \<Rightarrow> (c # w) # ws
            | [] \<Rightarrow> [[c]]))"

text \<open>
  \<^verbatim>\<open>get_nested_value(data, key_path)\<close>. The first function is the \<^verbatim>\<open>for\<close> loop, with
  the variable \<^verbatim>\<open>current\<close> as its first argument; \<^verbatim>\<open>key in current\<close> and
  \<^verbatim>\<open>current[key]\<close> are the lookup \<open>map_of\<close>. The result \<^verbatim>\<open>None\<close> of a failed
  lookup is \<open>JNull\<close>, the value that a JSON \<^verbatim>\<open>null\<close> has too.
\<close>

fun get_nested_value_loop :: "json \<Rightarrow> pystr list \<Rightarrow> json" where
  "get_nested_value_loop current [] = current"
| "get_nested_value_loop current (key # keys) =
     (case current of
        JDict items \<Rightarrow>
          (case map_of items key of
             Some v \<Rightarrow> get_nested_value_loop v keys
           | None \<Rightarrow> JNull)
      | _ \<Rightarrow> JNull)"

definition get_nested_value :: "json \<Rightarrow> pystr \<Rightarrow> json" where
  "get_nested_value data key_path = get_nested_value_loop data (split key_path dot)"

text \<open>
  Standard output encodes as UTF-8, Python's default. Then \<^verbatim>\<open>print\<close> raises
  \<^verbatim>\<open>UnicodeEncodeError\<close> exactly for a text that holds a surrogate code point, which
  \<^verbatim>\<open>json.load\<close> accepts in a string (\<^verbatim>\<open>"\ud800"\<close>). In the line of a found key the
  value is formatted by \<^verbatim>\<open>str\<close>: a string is shown as it is, a value of any other
  kind through \<^verbatim>\<open>repr\<close>, which escapes such code points. The required keys, the
  names of the languages and the other texts of the lines hold no surrogate.
\<close>

definition surrogate :: "pychar \<Rightarrow> bool" where
  "surrogate c \<longleftrightarrow> 55296 \<le> c \<and> c \<le> 57343"

fun print_raises :: "json \<Rightarrow> bool" where
  "print_raises (JStr s) = list_ex surrogate s"
| "print_raises _ = False"

text \<open>
  \<^verbatim>\<open>check_translation_file(file_path, lang_name)\<close>. The argument is the outcome of
  opening and parsing the file. \<open>check_keys\<close> is the \<^verbatim>\<open>for\<close> loop over the required
  keys, with the lists \<^verbatim>\<open>found_keys\<close> and \<^verbatim>\<open>missing_keys\<close> as they grow. Beside
  them the lines printed for the keys so far are kept: the key and, for a key that
  was found, the value shown with it. The loop stands inside the \<^verbatim>\<open>try\<close>, so a
  \<^verbatim>\<open>print\<close> that raises ends it, and the handler returns what it returns for a file
  that could not be read.
\<close>

datatype line = Present pystr json | Absent pystr

fun check_keys ::
  "json \<Rightarrow> pystr list \<Rightarrow> pystr list \<Rightarrow> pystr list \<Rightarrow> line list
     \<Rightarrow> (exn + pystr list \<times> pystr list) \<times> line list" where
  "check_keys data [] found_keys missing_keys printed = (Inr (found_keys, missing_keys), printed)"
| "check_keys data (key # keys) found_keys missing_keys printed =
     (let v = get_nested_value data key in
      if v \<noteq> JNull then
        (if print_raises v then (Inl UnicodeEncodeError, printed)
         else check_keys data keys (found_keys @ [key]) missing_keys (printed @ [Present key v]))
      else check_keys data keys found_keys (missing_keys @ [key]) (printed @ [Absent key]))"

definition check_translation_file :: "source \<Rightarrow> pystr list \<times> pystr list \<times> line list" where
  "check_translation_file src =
     (case src of
        Inr data \<Rightarrow>
          (case check_keys data required_keys [] [] [] of
             (Inr (found_keys, missing_keys), printed) \<Rightarrow> (found_keys, missing_keys, printed)
           | (Inl e, printed) \<Rightarrow> ([], required_keys, printed))
      | Inl e \<Rightarrow> ([], required_keys, []))"

section \<open>Notions used to state the claims\<close>

text \<open>
  A Python dictionary holds a key once. \<open>no_repeated_keys\<close> says so of every
  dictionary of a document: no key is repeated at any single nesting level.
\<close>

fun no_repeated_keys :: "json \<Rightarrow> bool"
  and no_repeated_keys_items :: "(pystr \<times> json) list \<Rightarrow> bool" where
  "no_repeated_keys (JDict items) = (distinct (map fst items) \<and> no_repeated_keys_items items)"
| "no_repeated_keys _ = True"
| "no_repeated_keys_items [] = True"
| "no_repeated_keys_items ((key, val) # rest) = (no_repeated_keys val \<and> no_repeated_keys_items rest)"

text \<open>
  Direct traversal: every node below the root, with the keys that lead to it from
  the root and the value found there, in the order of a depth-first walk. Only
  dictionaries have nodes below them.
\<close>

fun nodes :: "json \<Rightarrow> (pystr list \<times> json) list"
  and nodes_items :: "(pystr \<times> json) list \<Rightarrow> (pystr list \<times> json) list" where
  "nodes (JDict items) = nodes_items items"
| "nodes _ = []"
| "nodes_items [] = []"
| "nodes_items ((key, val) # rest) =
     ([key], val) # map (\<lambda>(ks, v). (key # ks, v)) (nodes val) @ nodes_items rest"

text \<open>The key path of a node: its keys joined by dots.\<close>

fun dotted :: "pystr list \<Rightarrow> pystr" where
  "dotted [] = []"
| "dotted [k] = k"
| "dotted (k # ks) = k @ [dot] @ dotted ks"

text \<open>
  Indexing level by level: the next segment must be a key of the current node, which
  must be a dictionary.
\<close>

fun resolve :: "json \<Rightarrow> pystr list \<Rightarrow> json option" where
  "resolve current [] = Some current"
| "resolve (JDict items) (key # keys) =
     (case map_of items key of
        Some v \<Rightarrow> resolve v keys
      | None \<Rightarrow> None)"
| "resolve _ (key # keys) = None"

text \<open>No key of the document contains a dot; no key of the root is the empty string.\<close>

definition dot_free :: "json \<Rightarrow> bool" where
  "dot_free d \<longleftrightarrow> list_all (\<lambda>(ks, v). list_all (\<lambda>k. dot \<notin> set k) ks) (nodes d)"

definition top_nonempty :: "json \<Rightarrow> bool" where
  "top_nonempty d \<longleftrightarrow> (case d of JDict items \<Rightarrow> [] \<notin> set (map fst items) | _ \<Rightarrow> True)"

text \<open>No line of a key of the list raises when it is printed.\<close>

definition prints_all :: "json \<Rightarrow> pystr list \<Rightarrow> bool" where
  "prints_all data keys \<longleftrightarrow> list_all (\<lambda>k. \<not> print_raises (get_nested_value data k)) keys"

text \<open>
  The occurrences in a sequence whose element has appeared earlier in the same
  sequence.
\<close>

definition repeated :: "'a list \<Rightarrow> 'a list" where
  "repeated xs = map (\<lambda>i. xs ! i) (filter (\<lambda>i. xs ! i \<in> set (take i xs)) [0..<length xs])"

text \<open>A leaf that the empty-value check is to report: a string of whitespace only.\<close>

fun blank :: "json \<Rightarrow> bool" where
  "blank (JStr s) = list_all isspace s"
| "blank _ = False"

text \<open>
  The path that the walks build for a node: \<open>current_key\<close> applied along the keys
  of the node, starting from the prefix of the root.
\<close>

definition walk_path :: "pystr \<Rightarrow> pystr list \<Rightarrow> pystr" where
  "walk_path prefix ks = foldl current_key prefix ks"

text \<open>The elements of a sequence that are met again, given those met before it.\<close>

fun met_again :: "'a set \<Rightarrow> 'a list \<Rightarrow> 'a list" where
  "met_again seen [] = []"
| "met_again seen (x # xs) =
     (if x \<in> seen then x # met_again seen xs else met_again (insert x seen) xs)"

section \<open>Lemmas about the walks\<close>

lemma split_nonempty: "split s sep \<noteq> []"
  by (induction s) (auto split: list.splits)

lemma split_no_sep: "sep \<notin> set k \<Longrightarrow> split k sep = [k]"
  by (induction k) auto

lemma split_append_sep: "sep \<notin> set k \<Longrightarrow> split (k @ sep # rest) sep = k # split rest sep"
  by (induction k) auto

lemma split_dotted:
  "ks \<noteq> [] \<Longrightarrow> \<forall>k \<in> set ks. dot \<notin> set k \<Longrightarrow> split (dotted ks) dot = ks"
proof (induction ks rule: dotted.induct)
  case 1
  then show ?case by simp
next
  case (2 k)
  then show ?case by (simp add: split_no_sep)
next
  case (3 k k' ks)
  then show ?case by (simp add: split_append_sep)
qed

lemma case_get_all_keys:
  "(case val of JDict x \<Rightarrow> get_all_keys val p | _ \<Rightarrow> []) = get_all_keys val p"
  by (cases val) simp_all

lemma walk_path_Cons: "walk_path prefix (k # ks) = walk_path (current_key prefix k) ks"
  by (simp add: walk_path_def)

lemma get_all_keys_nodes:
  shows "get_all_keys d prefix = map (\<lambda>(ks, v). walk_path prefix ks) (nodes d)"
    and "get_all_keys_items items prefix = map (\<lambda>(ks, v). walk_path prefix ks) (nodes_items items)"
proof (induction d and items arbitrary: prefix and prefix rule: nodes_nodes_items.induct)
  case (4 key val rest)
  show ?case
    by (simp add: case_get_all_keys "4.IH" walk_path_Cons split_def o_def) (simp add: walk_path_def)
qed simp_all

lemma walk_path_prefix:
  "prefix \<noteq> [] \<Longrightarrow> ks \<noteq> [] \<Longrightarrow> walk_path prefix ks = prefix @ [dot] @ dotted ks"
proof (induction ks arbitrary: prefix rule: dotted.induct)
  case 1
  then show ?case by simp
next
  case (2 k)
  then show ?case by (simp add: walk_path_def current_key_def)
next
  case (3 k k' ks)
  have "walk_path prefix (k # k' # ks) = walk_path (prefix @ [dot] @ k) (k' # ks)"
    using "3.prems" by (simp add: walk_path_def current_key_def)
  also have "\<dots> = (prefix @ [dot] @ k) @ [dot] @ dotted (k' # ks)"
    by (rule "3.IH") simp_all
  finally show ?case by simp
qed

lemma walk_path_root:
  assumes "ks \<noteq> []" and "hd ks \<noteq> []"
  shows "walk_path [] ks = dotted ks"
proof (cases ks)
  case Nil
  with assms show ?thesis by simp
next
  case (Cons k rest)
  with assms have k: "k \<noteq> []" by simp
  show ?thesis
  proof (cases rest)
    case Nil
    with Cons show ?thesis by (simp add: walk_path_def current_key_def)
  next
    case (Cons k' rest')
    have "walk_path [] ks = walk_path k rest"
      using \<open>ks = k # rest\<close> by (simp add: walk_path_def current_key_def)
    also have "\<dots> = k @ [dot] @ dotted rest"
      using k Cons by (intro walk_path_prefix) simp_all
    finally show ?thesis using Cons \<open>ks = k # rest\<close> by simp
  qed
qed

lemma nodes_first_key:
  shows "(ks, v) \<in> set (nodes d) \<Longrightarrow> ks \<noteq> []"
    and "(ks, v) \<in> set (nodes_items items) \<Longrightarrow> ks \<noteq> [] \<and> hd ks \<in> fst ` set items"
  by (induction d and items arbitrary: ks v and ks v rule: nodes_nodes_items.induct) auto

lemma nodes_top_nonempty:
  assumes "top_nonempty d" and "(ks, v) \<in> set (nodes d)"
  shows "ks \<noteq> [] \<and> hd ks \<noteq> []"
proof (cases d)
  case (JDict items)
  from assms(2) JDict have "ks \<noteq> [] \<and> hd ks \<in> fst ` set items"
    using nodes_first_key(2) by simp
  moreover from assms(1) JDict have "[] \<notin> fst ` set items"
    by (simp add: top_nonempty_def)
  ultimately show ?thesis by metis
qed (use assms in simp_all)

lemma get_all_keys_dotted:
  assumes "top_nonempty d"
  shows "get_all_keys d [] = map (\<lambda>(ks, v). dotted ks) (nodes d)"
proof -
  have "walk_path [] ks = dotted ks" if "(ks, v) \<in> set (nodes d)" for ks v
    using nodes_top_nonempty [OF assms that] by (simp add: walk_path_root)
  then show ?thesis
    by (auto simp: get_all_keys_nodes(1))
qed

lemma resolve_other_key:
  "k \<noteq> key \<Longrightarrow> resolve (JDict ((key, val) # rest)) (k # ks) = resolve (JDict rest) (k # ks)"
  by simp

lemma nodes_resolve:
  shows "no_repeated_keys d \<Longrightarrow> (ks, v) \<in> set (nodes d) \<Longrightarrow> resolve d ks = Some v"
    and "distinct (map fst items) \<Longrightarrow> no_repeated_keys_items items \<Longrightarrow> (ks, v) \<in> set (nodes_items items)
         \<Longrightarrow> resolve (JDict items) ks = Some v"
proof (induction d and items arbitrary: ks v and ks v rule: nodes_nodes_items.induct)
  case (4 key val rest)
  from "4.prems"(3) consider
      (here) "ks = [key]" "v = val"
    | (below) ks' where "ks = key # ks'" "(ks', v) \<in> set (nodes val)"
    | (later) "(ks, v) \<in> set (nodes_items rest)"
    by auto
  then show ?case
  proof cases
    case here
    then show ?thesis by simp
  next
    case below
    with "4.IH"(1) "4.prems"(2) show ?thesis by simp
  next
    case later
    then have "ks \<noteq> []" and "hd ks \<in> fst ` set rest"
      using nodes_first_key(2) by blast+
    then obtain k ks' where ks: "ks = k # ks'" and "k \<in> fst ` set rest"
      by (cases ks) auto
    with "4.prems"(1) have "k \<noteq> key" by auto
    moreover have "resolve (JDict rest) ks = Some v"
      using "4.IH"(2) "4.prems" later by simp
    ultimately show ?thesis using ks by simp
  qed
qed simp_all

lemma get_nested_value_loop_resolve:
  "get_nested_value_loop d ks = (case resolve d ks of Some v \<Rightarrow> v | None \<Rightarrow> JNull)"
proof (induction ks arbitrary: d)
  case Nil
  show ?case by simp
next
  case (Cons k ks)
  show ?case by (cases d) (simp_all add: Cons.IH split: option.splits)
qed

lemma nodes_distinct:
  shows "no_repeated_keys d \<Longrightarrow> distinct (map fst (nodes d))"
    and "distinct (map fst items) \<Longrightarrow> no_repeated_keys_items items \<Longrightarrow> distinct (map fst (nodes_items items))"
proof (induction d and items rule: nodes_nodes_items.induct)
  case (4 key val rest)
  have below: "distinct (map fst (map (\<lambda>(ks, v). (key # ks, v)) (nodes val)))"
  proof -
    have eq: "map fst (map (\<lambda>(ks, v). (key # ks, v)) (nodes val)) = map ((#) key) (map fst (nodes val))"
      by (simp add: split_def o_def)
    have d: "distinct (map fst (nodes val))"
      using "4.IH"(1) "4.prems"(2) by simp
    have "distinct (map ((#) key) (map fst (nodes val)))"
      by (rule iffD2 [OF distinct_map]) (simp add: d inj_on_def)
    then show ?thesis by (simp only: eq)
  qed
  have later: "distinct (map fst (nodes_items rest))"
    using "4.IH"(2) "4.prems" by simp
  have other: "hd ks \<noteq> key" if "(ks, v) \<in> set (nodes_items rest)" for ks v
    using nodes_first_key(2) [OF that] "4.prems"(1) by auto
  have short: "ks \<noteq> []" if "(ks, v) \<in> set (nodes val)" for ks v
    using nodes_first_key(1) [OF that] .
  show ?case
    using below later other short by (fastforce simp: split_def)
qed simp_all

lemma dotted_inject:
  assumes "ks \<noteq> []" "\<forall>k \<in> set ks. dot \<notin> set k"
    and "ks' \<noteq> []" "\<forall>k \<in> set ks'. dot \<notin> set k"
    and "dotted ks = dotted ks'"
  shows "ks = ks'"
proof -
  have "ks = split (dotted ks) dot" using assms(1,2) by (simp add: split_dotted)
  also have "\<dots> = split (dotted ks') dot" using assms(5) by simp
  also have "\<dots> = ks'" using assms(3,4) by (simp add: split_dotted)
  finally show ?thesis .
qed

lemma dot_free_node:
  "dot_free d \<Longrightarrow> (ks, v) \<in> set (nodes d) \<Longrightarrow> \<forall>k \<in> set ks. dot \<notin> set k"
  by (auto simp: dot_free_def list_all_iff)

lemma get_nested_value_node:
  assumes "no_repeated_keys d" and "dot_free d" and "(ks, v) \<in> set (nodes d)"
  shows "get_nested_value d (dotted ks) = v"
proof -
  have "ks \<noteq> []" using assms(3) by (rule nodes_first_key(1))
  then have "split (dotted ks) dot = ks"
    using dot_free_node [OF assms(2,3)] by (simp add: split_dotted)
  moreover have "resolve d ks = Some v" using assms(1,3) by (rule nodes_resolve(1))
  ultimately show ?thesis
    by (simp add: get_nested_value_def get_nested_value_loop_resolve)
qed

lemma met_again_append:
  "met_again seen (xs @ ys) = met_again seen xs @ met_again (seen \<union> set xs) ys"
  by (induction xs arbitrary: seen) (auto simp: insert_absorb)

lemma case_check_duplicate_keys:
  "(case val of JDict x \<Rightarrow> check_duplicate_keys val p f | _ \<Rightarrow> ([], f)) = check_duplicate_keys val p f"
  by (cases val) simp_all

lemma check_duplicate_keys_met_again:
  shows "check_duplicate_keys d prefix f = (dups, f')
         \<Longrightarrow> dups = met_again (dom f) (get_all_keys d prefix)
             \<and> dom f' = dom f \<union> set (get_all_keys d prefix)"
    and "check_duplicate_keys_items items prefix f = (dups, f')
         \<Longrightarrow> dups = met_again (dom f) (get_all_keys_items items prefix)
             \<and> dom f' = dom f \<union> set (get_all_keys_items items prefix)"
proof (induction d prefix f and items prefix f arbitrary: dups f' and dups f'
    rule: check_duplicate_keys_check_duplicate_keys_items.induct)
  case (4 key val rest prefix found_keys)
  define ck where "ck = current_key prefix key"
  define dups1 where "dups1 = (if found_keys ck \<noteq> None then [ck] else [])"
  define found1 where "found1 = (if found_keys ck \<noteq> None then found_keys else found_keys(ck \<mapsto> True))"
  obtain dups2 found2 where r2: "check_duplicate_keys val ck found1 = (dups2, found2)"
    by (cases "check_duplicate_keys val ck found1")
  obtain dups3 found3 where r3: "check_duplicate_keys_items rest prefix found2 = (dups3, found3)"
    by (cases "check_duplicate_keys_items rest prefix found2")
  have step: "(if found_keys ck \<noteq> None then ([ck], found_keys) else ([], found_keys(ck \<mapsto> True)))
      = (dups1, found1)"
    by (simp add: dups1_def found1_def)
  have res: "dups = dups1 @ dups2 @ dups3" "f' = found3"
    using "4.prems" r2 r3 step
    by (simp_all add: case_check_duplicate_keys ck_def [symmetric] Let_def del: check_duplicate_keys.simps)
  have one: "dups1 = met_again (dom found_keys) [ck]" "dom found1 = dom found_keys \<union> {ck}"
    by (auto simp: dups1_def found1_def)
  have two: "dups2 = met_again (dom found1) (get_all_keys val ck) \<and>
      dom found2 = dom found1 \<union> set (get_all_keys val ck)"
  proof (cases "\<exists>x. val = JDict x")
    case True
    then obtain x where x: "val = JDict x" ..
    show ?thesis
      by (rule "4.IH"(1) [OF ck_def step [symmetric] refl x r2])
  next
    case False
    then show ?thesis using r2 by (cases val) auto
  qed
  have three: "dups3 = met_again (dom found2) (get_all_keys_items rest prefix) \<and>
      dom found3 = dom found2 \<union> set (get_all_keys_items rest prefix)"
  proof -
    have "(dups2, found2) =
        (case val of JDict x \<Rightarrow> check_duplicate_keys val ck found1 | _ \<Rightarrow> ([], found1))"
      unfolding case_check_duplicate_keys by (rule r2 [symmetric])
    from "4.IH"(2) [OF ck_def step [symmetric] refl this refl r3] show ?thesis .
  qed
  have keys: "get_all_keys_items ((key, val) # rest) prefix
      = [ck] @ get_all_keys val ck @ get_all_keys_items rest prefix"
    by (simp add: case_get_all_keys ck_def)
  have "dups = met_again (dom found_keys) (get_all_keys_items ((key, val) # rest) prefix)"
    unfolding keys met_again_append res(1) using one two three
    by (simp only: Un_assoc list.set)
  moreover have "dom f' = dom found_keys \<union> set (get_all_keys_items ((key, val) # rest) prefix)"
    unfolding keys res(2) using one two three
    by (simp only: set_append Un_assoc list.set)
  ultimately show ?case ..
qed auto

lemma met_again_indices:
  "met_again seen xs =
     map (\<lambda>i. xs ! i) (filter (\<lambda>i. xs ! i \<in> seen \<union> set (take i xs)) [0..<length xs])"
proof (induction xs arbitrary: seen)
  case Nil
  show ?case by simp
next
  case (Cons x xs)
  have idx: "[0..<length (x # xs)] = 0 # map Suc [0..<length xs]"
    by (simp add: upt_conv_Cons map_Suc_upt del: upt_Suc)
  show ?case
    unfolding idx
    by (auto simp add: Cons.IH filter_map o_def
        intro!: arg_cong [where f = "map ((!) xs)"] filter_cong)
qed

lemma met_again_repeated: "met_again {} xs = repeated xs"
  by (simp add: met_again_indices repeated_def)

lemma met_again_count:
  "count_list (met_again seen xs) p =
     (if p \<in> seen then count_list xs p else count_list xs p - 1)"
  by (induction xs arbitrary: seen) auto

lemma met_again_distinct: "distinct xs \<Longrightarrow> set xs \<inter> seen = {} \<Longrightarrow> met_again seen xs = []"
  by (induction xs arbitrary: seen) auto

lemma check_duplicate_keys_top:
  "fst (check_duplicate_keys d prefix Map.empty) = met_again {} (get_all_keys d prefix)"
proof -
  obtain dups f' where r: "check_duplicate_keys d prefix Map.empty = (dups, f')"
    by (cases "check_duplicate_keys d prefix Map.empty")
  from check_duplicate_keys_met_again(1) [OF r] r show ?thesis by simp
qed

lemma get_all_keys_distinct:
  assumes "no_repeated_keys d" and "dot_free d" and "top_nonempty d"
  shows "distinct (get_all_keys d [])"
proof -
  have keys: "get_all_keys d [] = map dotted (map fst (nodes d))"
    using assms(3) by (simp add: get_all_keys_dotted split_def o_def)
  have "inj_on dotted (set (map fst (nodes d)))"
  proof (rule inj_onI)
    fix ks ks'
    assume "ks \<in> set (map fst (nodes d))" and "ks' \<in> set (map fst (nodes d))"
      and eq: "dotted ks = dotted ks'"
    then obtain v v' where n: "(ks, v) \<in> set (nodes d)" and n': "(ks', v') \<in> set (nodes d)"
      by auto
    show "ks = ks'"
      using nodes_first_key(1) [OF n] dot_free_node [OF assms(2) n]
        nodes_first_key(1) [OF n'] dot_free_node [OF assms(2) n'] eq
      by (rule dotted_inject)
  qed
  moreover have "distinct (map fst (nodes d))"
    using assms(1) by (rule nodes_distinct(1))
  ultimately show ?thesis
    unfolding keys by (simp only: distinct_map simp_thms)
qed

lemma strip_empty: "strip s = [] \<longleftrightarrow> list_all isspace s"
proof -
  have "dropWhile isspace (rev (dropWhile isspace s)) = [] \<longleftrightarrow> dropWhile isspace s = []"
  proof (cases "dropWhile isspace s")
    case Nil
    then show ?thesis by (simp only: rev.simps dropWhile.simps)
  next
    case (Cons c cs)
    then have "\<not> isspace c"
      using hd_dropWhile [of isspace s] by simp
    with Cons show ?thesis
      by auto
  qed
  then show ?thesis
    by (simp add: strip_def list_all_iff)
qed

lemma check_empty_values_nodes:
  shows "check_empty_values d prefix lang
         = map (\<lambda>(ks, v). walk_path prefix ks) (filter (\<lambda>(ks, v). blank v) (nodes d))"
    and "check_empty_values_items items prefix lang
         = map (\<lambda>(ks, v). walk_path prefix ks) (filter (\<lambda>(ks, v). blank v) (nodes_items items))"
proof (induction d and items arbitrary: prefix and prefix rule: nodes_nodes_items.induct)
  case (4 key val rest)
  have below: "map (\<lambda>(ks, v). walk_path prefix ks)
        (filter (\<lambda>(ks, v). blank v) (map (\<lambda>(ks, v). (key # ks, v)) (nodes val)))
      = map (\<lambda>(ks, v). walk_path (current_key prefix key) ks) (filter (\<lambda>(ks, v). blank v) (nodes val))"
    by (simp add: filter_map o_def split_def walk_path_Cons)
  have first: "walk_path prefix [key] = current_key prefix key"
    by (simp add: walk_path_def)
  show ?case
  proof (cases val)
    case (JDict x)
    then show ?thesis
      using "4.IH"(1) [of "current_key prefix key"] "4.IH"(2) [of prefix] below
      by simp
  next
    case (JStr s)
    then show ?thesis
      using "4.IH"(2) [of prefix] by (simp add: strip_empty first)
  qed (use "4.IH"(2) [of prefix] in simp_all)
qed simp_all

lemma get_nested_value_resolve:
  "get_nested_value data key =
     (case resolve data (split key dot) of Some v \<Rightarrow> v | None \<Rightarrow> JNull)"
  by (simp add: get_nested_value_def get_nested_value_loop_resolve)

lemma required_dialog: "str ''import.loading.dialog'' \<in> set required_keys"
  by (simp add: required_keys_def)

lemma main_Some:
  assumes "main de_src en_src = Some r"
  obtains de_data en_data where
    "de_src = Inr de_data" "en_src = Inr en_data" "de_data \<noteq> JNull" "en_data \<noteq> JNull"
    "r = \<lparr>de_keys = set (get_all_keys de_data []), en_keys = set (get_all_keys en_data []),
          de_duplicates = fst (check_duplicate_keys de_data [] Map.empty),
          en_duplicates = fst (check_duplicate_keys en_data [] Map.empty),
          only_de = set (get_all_keys de_data []) - set (get_all_keys en_data []),
          only_en = set (get_all_keys en_data []) - set (get_all_keys de_data []),
          common_keys = set (get_all_keys de_data []) \<inter> set (get_all_keys en_data []),
          de_empty = check_empty_values de_data [] (str ''Deutsch''),
          en_empty = check_empty_values en_data [] (str ''Englisch''),
          issues = collect_issues
            (fst (check_duplicate_keys de_data [] Map.empty))
            (fst (check_duplicate_keys en_data [] Map.empty))
            (set (get_all_keys de_data []) - set (get_all_keys en_data []))
            (set (get_all_keys en_data []) - set (get_all_keys de_data []))
            (check_empty_values de_data [] (str ''Deutsch''))
            (check_empty_values en_data [] (str ''Englisch''))\<rparr>"
  using assms
  by (auto simp: main_def load_translations_def structural_diff_def Let_def
      split: sum.splits if_splits)

lemma collect_issues_empty:
  "collect_issues de_dups en_dups o_de o_en de_emp en_emp = [] \<longleftrightarrow>
     de_dups = [] \<and> en_dups = [] \<and> o_de = {} \<and> o_en = {} \<and> de_emp = [] \<and> en_emp = []"
  by (simp add: collect_issues_def)

lemma main_both_loaded:
  assumes "de_data \<noteq> JNull" and "en_data \<noteq> JNull"
  shows "main (Inr de_data) (Inr en_data) \<noteq> None"
  using assms by (simp add: main_def load_translations_def structural_diff_def Let_def)

lemma check_keys_prints_all:
  "prints_all data keys \<Longrightarrow>
   check_keys data keys found_keys missing_keys printed =
     (Inr (found_keys @ filter (\<lambda>k. get_nested_value data k \<noteq> JNull) keys,
           missing_keys @ filter (\<lambda>k. get_nested_value data k = JNull) keys),
      printed @ map (\<lambda>k. if get_nested_value data k \<noteq> JNull
                           then Present k (get_nested_value data k) else Absent k) keys)"
  by (induction keys arbitrary: found_keys missing_keys printed)
    (simp_all add: prints_all_def Let_def)

lemma check_keys_raises:
  "\<not> prints_all data keys \<Longrightarrow>
   fst (check_keys data keys found_keys missing_keys printed) = Inl UnicodeEncodeError"
proof (induction keys arbitrary: found_keys missing_keys printed)
  case Nil
  then show ?case by (simp add: prints_all_def)
next
  case (Cons key keys)
  show ?case
  proof (cases "print_raises (get_nested_value data key)")
    case True
    then have "get_nested_value data key \<noteq> JNull" by auto
    with True show ?thesis by (simp add: Let_def)
  next
    case False
    with Cons.prems have "\<not> prints_all data keys" by (simp add: prints_all_def)
    with False Cons.IH show ?thesis by (simp add: Let_def)
  qed
qed

lemma check_translation_file_prints_all:
  assumes "prints_all data required_keys"
  shows "check_translation_file (Inr data) =
     (filter (\<lambda>k. get_nested_value data k \<noteq> JNull) required_keys,
      filter (\<lambda>k. get_nested_value data k = JNull) required_keys,
      map (\<lambda>k. if get_nested_value data k \<noteq> JNull
                then Present k (get_nested_value data k) else Absent k) required_keys)"
  by (simp add: check_translation_file_def check_keys_prints_all [OF assms])

lemma check_translation_file_raises:
  assumes "\<not> prints_all data required_keys"
  shows "fst (check_translation_file (Inr data)) = []
    \<and> fst (snd (check_translation_file (Inr data))) = required_keys"
proof -
  obtain r printed where r: "check_keys data required_keys [] [] [] = (r, printed)"
    by (cases "check_keys data required_keys [] [] []")
  with check_keys_raises [OF assms, of "[]" "[]" "[]"] have "r = Inl UnicodeEncodeError"
    by simp
  with r show ?thesis by (simp add: check_translation_file_def)
qed

text \<open>
  A found value that holds a lone surrogate: the first required key is absent and
  its line is printed; the line of the second raises inside the \<^verbatim>\<open>try\<close>, and the
  handler returns every required key as missing.
\<close>

lemma check_translation_file_surrogate:
  "check_translation_file
     (Inr (JDict [(str ''import'', JDict [(str ''options'',
        JDict [(str ''basic_options'', JStr [55296])])])]))
   = ([], required_keys, [Absent (str ''import.options.merge_strategy_description'')])"
  by (simp add: check_translation_file_def required_keys_def get_nested_value_def
      str_def dot_def surrogate_def Let_def)

lemma check_empty_values_dotted:
  assumes "top_nonempty d"
  shows "check_empty_values d [] lang_name
     = map (\<lambda>(ks, v). dotted ks) (filter (\<lambda>(ks, v). blank v) (nodes d))"
proof -
  have "walk_path [] ks = dotted ks" if "(ks, v) \<in> set (nodes d)" for ks v
    using nodes_top_nonempty [OF assms that] by (simp add: walk_path_root)
  then show ?thesis
    by (auto simp: check_empty_values_nodes(1))
qed

lemma main_keys:
  assumes "main (Inr de_data) (Inr en_data) = Some r"
  shows "de_keys r = set (get_all_keys de_data [])" and "en_keys r = set (get_all_keys en_data [])"
  using assms by (auto elim!: main_Some)

section \<open>The claims of the specification\<close>

text \<open>
  C1, as amended. Take a document in which no dictionary repeats a key, no key
  contains a dot and no key of the root is empty. Every key path \<open>p\<close> that
  \<open>get_all_keys\<close> emits is the dotted path of exactly one node, and
  \<open>get_nested_value\<close> at \<open>p\<close> returns the value that direct traversal finds at
  that node.
\<close>

theorem flatten_then_resolve:
  assumes "no_repeated_keys d" and "dot_free d" and "top_nonempty d"
    and "p \<in> set (get_all_keys d [])"
  shows "\<exists>ks v. (ks, v) \<in> set (nodes d) \<and> dotted ks = p \<and> get_nested_value d p = v
           \<and> (\<forall>ks' v'. (ks', v') \<in> set (nodes d) \<and> dotted ks' = p \<longrightarrow> ks' = ks \<and> v' = v)"
proof -
  from assms(3,4) obtain ks v where node: "(ks, v) \<in> set (nodes d)" and p: "dotted ks = p"
    by (auto simp: get_all_keys_dotted)
  have val: "get_nested_value d p = v"
    using get_nested_value_node [OF assms(1,2) node] p by simp
  have "ks' = ks \<and> v' = v" if other: "(ks', v') \<in> set (nodes d)" and p': "dotted ks' = p" for ks' v'
  proof -
    have "ks' = ks"
      using nodes_first_key(1) [OF other] dot_free_node [OF assms(2) other]
        nodes_first_key(1) [OF node] dot_free_node [OF assms(2) node] p p'
      by (intro dotted_inject) simp_all
    moreover have "v' = v"
      using get_nested_value_node [OF assms(1,2) other] p' val by simp
    ultimately show ?thesis ..
  qed
  with node p val show ?thesis by blast
qed

text \<open>
  C1 as stated fails for a key that contains a dot. In \<^verbatim>\<open>{"a.b": "x"}\<close> the flattener
  emits \<^verbatim>\<open>a.b\<close> for the only node, whose value is \<^verbatim>\<open>"x"\<close>; the resolver splits the
  path at the dot, finds no key \<^verbatim>\<open>a\<close> and returns \<^verbatim>\<open>None\<close>.
\<close>

theorem flatten_then_resolve_counterexample:
  "no_repeated_keys (JDict [(str ''a.b'', JStr (str ''x''))])
   \<and> str ''a.b'' \<in> set (get_all_keys (JDict [(str ''a.b'', JStr (str ''x''))]) [])
   \<and> nodes (JDict [(str ''a.b'', JStr (str ''x''))]) = [([str ''a.b''], JStr (str ''x''))]
   \<and> get_nested_value (JDict [(str ''a.b'', JStr (str ''x''))]) (str ''a.b'') = JNull"
  by (simp add: str_def current_key_def dot_def get_nested_value_def)

text \<open>The scenario of the specification: \<^verbatim>\<open>{"x": {"y": "ok"}}\<close> and the path \<^verbatim>\<open>x.y\<close>.\<close>

theorem flatten_then_resolve_witness:
  "no_repeated_keys (JDict [(str ''x'', JDict [(str ''y'', JStr (str ''ok''))])])
   \<and> dot_free (JDict [(str ''x'', JDict [(str ''y'', JStr (str ''ok''))])])
   \<and> top_nonempty (JDict [(str ''x'', JDict [(str ''y'', JStr (str ''ok''))])])
   \<and> str ''x.y'' \<in> set (get_all_keys (JDict [(str ''x'', JDict [(str ''y'', JStr (str ''ok''))])]) [])
   \<and> get_nested_value (JDict [(str ''x'', JDict [(str ''y'', JStr (str ''ok''))])]) (str ''x.y'')
       = JStr (str ''ok'')"
proof -
  let ?d = "JDict [(str ''x'', JDict [(str ''y'', JStr (str ''ok''))])]"
  have 1: "no_repeated_keys ?d" by (simp add: str_def)
  have 2: "dot_free ?d" by (simp add: dot_free_def str_def dot_def)
  have 3: "top_nonempty ?d" by (simp add: top_nonempty_def str_def)
  have 4: "str ''x.y'' \<in> set (get_all_keys ?d [])"
    by (simp add: str_def current_key_def dot_def)
  have 5: "nodes ?d = [([str ''x''], JDict [(str ''y'', JStr (str ''ok''))]),
                       ([str ''x'', str ''y''], JStr (str ''ok''))]"
    by simp
  have 6: "dotted [str ''x''] \<noteq> str ''x.y''" "dotted [str ''x'', str ''y''] = str ''x.y''"
    by (simp_all add: str_def dot_def)
  from flatten_then_resolve [OF 1 2 3 4] obtain ks v
    where node: "(ks, v) \<in> set (nodes ?d)" and p: "dotted ks = str ''x.y''"
      and val: "get_nested_value ?d (str ''x.y'') = v"
    by blast
  from node 5 have "(ks, v) = ([str ''x''], JDict [(str ''y'', JStr (str ''ok''))])
      \<or> (ks, v) = ([str ''x'', str ''y''], JStr (str ''ok''))"
    by (simp only: set_simps insert_iff empty_iff) blast
  with p 6(1) have "v = JStr (str ''ok'')" by blast
  with val 1 2 3 4 show ?thesis by blast
qed

text \<open>
  C2, as amended. In a document in which no dictionary repeats a key, no key contains
  a dot and no key of the root is empty, \<open>check_duplicate_keys\<close> finds nothing. In
  every document, a key path is reported once for each time the walk meets it after
  the first: the number of its findings is the number of nodes with that path, less
  one.
\<close>

theorem no_duplicates_without_repeated_keys:
  "(no_repeated_keys d \<and> dot_free d \<and> top_nonempty d
      \<longrightarrow> fst (check_duplicate_keys d [] Map.empty) = [])
   \<and> count_list (fst (check_duplicate_keys d [] Map.empty)) p
       = count_list (map (\<lambda>(ks, v). walk_path [] ks) (nodes d)) p - 1"
proof
  show "no_repeated_keys d \<and> dot_free d \<and> top_nonempty d
      \<longrightarrow> fst (check_duplicate_keys d [] Map.empty) = []"
  proof
    assume "no_repeated_keys d \<and> dot_free d \<and> top_nonempty d"
    then have "distinct (get_all_keys d [])"
      by (simp add: get_all_keys_distinct)
    then show "fst (check_duplicate_keys d [] Map.empty) = []"
      by (simp add: check_duplicate_keys_top met_again_distinct)
  qed
  show "count_list (fst (check_duplicate_keys d [] Map.empty)) p
       = count_list (map (\<lambda>(ks, v). walk_path [] ks) (nodes d)) p - 1"
    by (simp add: check_duplicate_keys_top met_again_count get_all_keys_nodes(1))
qed

text \<open>The first catalog of the scenario of the specification, \<^verbatim>\<open>{"a": {"b": "hello", "c": ""}}\<close>.\<close>

theorem no_duplicates_without_repeated_keys_witness:
  "no_repeated_keys (JDict [(str ''a'', JDict [(str ''b'', JStr (str ''hello'')), (str ''c'', JStr [])])])
   \<and> dot_free (JDict [(str ''a'', JDict [(str ''b'', JStr (str ''hello'')), (str ''c'', JStr [])])])
   \<and> top_nonempty (JDict [(str ''a'', JDict [(str ''b'', JStr (str ''hello'')), (str ''c'', JStr [])])])
   \<and> fst (check_duplicate_keys
        (JDict [(str ''a'', JDict [(str ''b'', JStr (str ''hello'')), (str ''c'', JStr [])])])
        [] Map.empty) = []"
proof -
  let ?d = "JDict [(str ''a'', JDict [(str ''b'', JStr (str ''hello'')), (str ''c'', JStr [])])]"
  have 1: "no_repeated_keys ?d" by (simp add: str_def)
  have 2: "dot_free ?d" by (simp add: dot_free_def str_def dot_def)
  have 3: "top_nonempty ?d" by (simp add: top_nonempty_def str_def)
  from no_duplicates_without_repeated_keys [of ?d] 1 2 3 show ?thesis by blast
qed

text \<open>
  C2 as stated fails when the paths of two different nodes coincide. No dictionary
  of \<^verbatim>\<open>{"a.b": "x", "a": {"b": "y"}}\<close> repeats a key, and \<^verbatim>\<open>a.b\<close> is reported.
\<close>

theorem no_duplicates_without_repeated_keys_counterexample:
  "no_repeated_keys (JDict [(str ''a.b'', JStr (str ''x'')), (str ''a'', JDict [(str ''b'', JStr (str ''y''))])])
   \<and> fst (check_duplicate_keys
        (JDict [(str ''a.b'', JStr (str ''x'')), (str ''a'', JDict [(str ''b'', JStr (str ''y''))])])
        [] Map.empty) = [str ''a.b'']"
  by (simp add: str_def current_key_def dot_def Let_def del: not_None_eq)

text \<open>
  C10. The findings of \<open>check_duplicate_keys\<close> are the occurrences, in the sequence
  that \<open>get_all_keys\<close> returns, of a key path that has appeared earlier in that
  sequence, in the same order.
\<close>

theorem duplicates_are_repeated_paths:
  "fst (check_duplicate_keys d [] Map.empty) = repeated (get_all_keys d [])"
  by (simp add: check_duplicate_keys_top met_again_repeated)

text \<open>
  C7 says that a finding carries the key path of the leaf whose value is blank. In
  \<^verbatim>\<open>{"": {"c": ""}, "c": "x"}\<close> the blank leaf is \<^verbatim>\<open>c\<close> below the empty key of the root,
  with the dotted path \<^verbatim>\<open>.c\<close>. Line 118 builds the path with the same test
  \<^verbatim>\<open>if prefix\<close> as the flattener (C9), and the one finding is \<^verbatim>\<open>c\<close>: the path of the
  leaf with the value \<^verbatim>\<open>"x"\<close>, which is not blank. By \<open>check_empty_values_dotted\<close>
  the findings are the dotted paths of exactly the blank leaves when no key of the
  root is empty.
\<close>

theorem blank_leaf_below_empty_key:
  "check_empty_values
     (JDict [(str '''', JDict [(str ''c'', JStr (str ''''))]), (str ''c'', JStr (str ''x''))])
     [] (str ''Deutsch'')
     = [str ''c'']
   \<and> map (\<lambda>(ks, v). dotted ks) (filter (\<lambda>(ks, v). blank v)
       (nodes (JDict [(str '''', JDict [(str ''c'', JStr (str ''''))]), (str ''c'', JStr (str ''x''))])))
     = [str ''.c'']
   \<and> filter (\<lambda>(ks, v). dotted ks = str ''c'')
       (nodes (JDict [(str '''', JDict [(str ''c'', JStr (str ''''))]), (str ''c'', JStr (str ''x''))]))
     = [([str ''c''], JStr (str ''x''))]"
  by (simp add: str_def current_key_def dot_def strip_def isspace_def)

text \<open>
  C3, as amended. Take a catalog that loaded and in which no line of a required key
  raises when it is printed, and a required key path. The path is recorded as missing
  exactly when indexing level by level fails (a segment is not a key of the current
  node, or the current node is not a dictionary) or ends at the value \<^verbatim>\<open>null\<close>.
  Otherwise it is recorded as found, and the line printed for it shows the value that
  was reached.
\<close>

theorem missing_iff_unresolved_or_null:
  assumes "key \<in> set required_keys"
    and "prints_all data required_keys"
    and "check_translation_file (Inr data) = (found_keys, missing_keys, printed)"
  shows "(key \<in> set missing_keys \<longleftrightarrow>
            resolve data (split key dot) = None \<or> resolve data (split key dot) = Some JNull)
         \<and> (key \<in> set found_keys \<longleftrightarrow> key \<notin> set missing_keys)
         \<and> (\<forall>v. resolve data (split key dot) = Some v \<and> v \<noteq> JNull
               \<longrightarrow> Present key v \<in> set printed)"
proof -
  from assms(3) have
    f: "found_keys = filter (\<lambda>k. get_nested_value data k \<noteq> JNull) required_keys" and
    m: "missing_keys = filter (\<lambda>k. get_nested_value data k = JNull) required_keys" and
    p: "printed = map (\<lambda>k. if get_nested_value data k \<noteq> JNull
                           then Present k (get_nested_value data k) else Absent k) required_keys"
    by (simp_all add: check_translation_file_prints_all [OF assms(2)])
  have 1: "key \<in> set missing_keys \<longleftrightarrow>
      resolve data (split key dot) = None \<or> resolve data (split key dot) = Some JNull"
    using assms(1) by (auto simp: m get_nested_value_resolve split: option.splits)
  have 2: "key \<in> set found_keys \<longleftrightarrow> key \<notin> set missing_keys"
    using assms(1) by (simp add: f m)
  have 3: "Present key v \<in> set printed"
    if "resolve data (split key dot) = Some v \<and> v \<noteq> JNull" for v
  proof -
    from that have "get_nested_value data key = v" "v \<noteq> JNull"
      by (simp_all add: get_nested_value_resolve)
    then have "Present key v = (\<lambda>k. if get_nested_value data k \<noteq> JNull
        then Present k (get_nested_value data k) else Absent k) key"
      by simp
    then show ?thesis
      unfolding p set_map using assms(1) by (rule image_eqI)
  qed
  from 1 2 3 show ?thesis by blast
qed

text \<open>
  A catalog in which the required path \<^verbatim>\<open>import.loading.dialog\<close> leads to \<^verbatim>\<open>"ok"\<close>,
  and the required path \<^verbatim>\<open>import.loading.options\<close> to nothing.
\<close>

theorem missing_iff_unresolved_or_null_witness:
  "str ''import.loading.dialog'' \<in> set required_keys
   \<and> prints_all (JDict [(str ''import'', JDict [(str ''loading'',
                   JDict [(str ''dialog'', JStr (str ''ok''))])])]) required_keys
   \<and> str ''import.loading.dialog''
       \<in> set (fst (check_translation_file
           (Inr (JDict [(str ''import'', JDict [(str ''loading'',
                   JDict [(str ''dialog'', JStr (str ''ok''))])])]))))
   \<and> str ''import.loading.dialog''
       \<notin> set (fst (snd (check_translation_file
           (Inr (JDict [(str ''import'', JDict [(str ''loading'',
                   JDict [(str ''dialog'', JStr (str ''ok''))])])])))))
   \<and> Present (str ''import.loading.dialog'') (JStr (str ''ok''))
       \<in> set (snd (snd (check_translation_file
           (Inr (JDict [(str ''import'', JDict [(str ''loading'',
                   JDict [(str ''dialog'', JStr (str ''ok''))])])])))))
   \<and> str ''import.loading.options''
       \<in> set (fst (snd (check_translation_file
           (Inr (JDict [(str ''import'', JDict [(str ''loading'',
                   JDict [(str ''dialog'', JStr (str ''ok''))])])])))))"
proof -
  let ?data = "JDict [(str ''import'', JDict [(str ''loading'',
                   JDict [(str ''dialog'', JStr (str ''ok''))])])]"
  let ?key = "str ''import.loading.dialog''"
  let ?other = "str ''import.loading.options''"
  have pr: "prints_all ?data required_keys"
    by (simp add: prints_all_def required_keys_def get_nested_value_def str_def dot_def
        surrogate_def)
  have other: "?other \<in> set required_keys"
    by (simp add: required_keys_def)
  obtain found_keys missing_keys printed
    where r: "check_translation_file (Inr ?data) = (found_keys, missing_keys, printed)"
    by (cases "check_translation_file (Inr ?data)")
  have s: "split ?key dot = [str ''import'', str ''loading'', str ''dialog'']"
    by (simp add: str_def dot_def)
  have v: "resolve ?data (split ?key dot) = Some (JStr (str ''ok''))"
    unfolding s by (simp add: str_def)
  have s': "split ?other dot = [str ''import'', str ''loading'', str ''options'']"
    by (simp add: str_def dot_def)
  have v': "resolve ?data (split ?other dot) = None"
    unfolding s' by (simp add: str_def)
  from missing_iff_unresolved_or_null [OF required_dialog pr r] v
  have "?key \<in> set found_keys" "?key \<notin> set missing_keys"
    "Present ?key (JStr (str ''ok'')) \<in> set printed"
    by simp_all
  moreover from missing_iff_unresolved_or_null [OF other pr r] v'
  have "?other \<in> set missing_keys"
    by simp
  ultimately show ?thesis using required_dialog pr r by simp
qed

text \<open>
  C3 as stated fails for a leaf that is \<^verbatim>\<open>null\<close>: every segment of the path is
  present and every node on the way is a dictionary, yet the path is recorded as
  missing, because \<^verbatim>\<open>None\<close> is also what the resolver returns on failure. No line
  raises here.
\<close>

theorem missing_iff_unresolved_or_null_counterexample:
  "str ''import.loading.dialog'' \<in> set required_keys
   \<and> prints_all (JDict [(str ''import'', JDict [(str ''loading'',
                   JDict [(str ''dialog'', JNull)])])]) required_keys
   \<and> resolve (JDict [(str ''import'', JDict [(str ''loading'', JDict [(str ''dialog'', JNull)])])])
         (split (str ''import.loading.dialog'') dot) = Some JNull
   \<and> str ''import.loading.dialog''
       \<in> set (fst (snd (check_translation_file
           (Inr (JDict [(str ''import'', JDict [(str ''loading'',
                   JDict [(str ''dialog'', JNull)])])])))))"
proof -
  let ?data = "JDict [(str ''import'', JDict [(str ''loading'', JDict [(str ''dialog'', JNull)])])]"
  let ?key = "str ''import.loading.dialog''"
  have pr: "prints_all ?data required_keys"
    by (simp add: prints_all_def required_keys_def get_nested_value_def str_def dot_def
        surrogate_def)
  have s: "split ?key dot = [str ''import'', str ''loading'', str ''dialog'']"
    by (simp add: str_def dot_def)
  have v: "resolve ?data (split ?key dot) = Some JNull"
    unfolding s by (simp add: str_def)
  then have "get_nested_value ?data ?key = JNull"
    by (simp add: get_nested_value_resolve)
  with required_dialog have "?key \<in> set (fst (snd (check_translation_file (Inr ?data))))"
    by (simp add: check_translation_file_prints_all [OF pr])
  with required_dialog pr v show ?thesis by blast
qed

text \<open>
  C4, as amended. When the source of a catalog cannot be read or parsed, no key is
  resolved and no line is printed for a key; the function returns an empty list of
  found keys and the whole list of required keys, all 32, as the missing ones.
\<close>

theorem load_failure_reports_all_missing:
  "check_translation_file (Inl e) = ([], required_keys, []) \<and> length required_keys = 32"
  by (simp add: check_translation_file_def required_keys_def)

text \<open>
  C4 as stated fails: after a failed load a required key is among the keys returned
  as missing.
\<close>

theorem load_failure_reports_all_missing_counterexample:
  "str ''import.loading.dialog''
     \<in> set (fst (snd (check_translation_file (Inl OSError))))"
  using required_dialog by (simp add: check_translation_file_def)

text \<open>
  C5, as amended. For any two sets of key paths, the three parts that lines 92 to 94
  compute are the keys of the first set only, those of the second only and the
  common ones; they are pairwise disjoint and their union is the union of the two
  sets. The three parts in the report of \<open>main\<close> are these parts of its two key sets.
  \<open>main\<close> computes them and does not assert the law.
\<close>

theorem three_way_partition:
  "(case structural_diff a b of
      (only_a, only_b, common) \<Rightarrow>
        only_a = a - b \<and> only_b = b - a \<and> common = a \<inter> b
        \<and> only_a \<inter> only_b = {} \<and> only_a \<inter> common = {} \<and> only_b \<inter> common = {}
        \<and> only_a \<union> only_b \<union> common = a \<union> b)
   \<and> (main de_src en_src = Some r
        \<longrightarrow> (only_de r, only_en r, common_keys r) = structural_diff (de_keys r) (en_keys r)
            \<and> only_de r = de_keys r - en_keys r \<and> only_en r = en_keys r - de_keys r
            \<and> common_keys r = de_keys r \<inter> en_keys r)"
proof
  show "case structural_diff a b of
      (only_a, only_b, common) \<Rightarrow>
        only_a = a - b \<and> only_b = b - a \<and> common = a \<inter> b
        \<and> only_a \<inter> only_b = {} \<and> only_a \<inter> common = {} \<and> only_b \<inter> common = {}
        \<and> only_a \<union> only_b \<union> common = a \<union> b"
    unfolding structural_diff_def prod.case by blast
  show "main de_src en_src = Some r
        \<longrightarrow> (only_de r, only_en r, common_keys r) = structural_diff (de_keys r) (en_keys r)
            \<and> only_de r = de_keys r - en_keys r \<and> only_en r = en_keys r - de_keys r
            \<and> common_keys r = de_keys r \<inter> en_keys r"
  proof
    assume "main de_src en_src = Some r"
    then show "(only_de r, only_en r, common_keys r) = structural_diff (de_keys r) (en_keys r)
            \<and> only_de r = de_keys r - en_keys r \<and> only_en r = en_keys r - de_keys r
            \<and> common_keys r = de_keys r \<inter> en_keys r"
      by (rule main_Some) (simp add: structural_diff_def)
  qed
qed

text \<open>
  The scenario of the specification: \<^verbatim>\<open>{"a": {"b": "hello", "c": ""}}\<close> against
  \<^verbatim>\<open>{"a": {"b": "hallo"}}\<close> has the common keys \<^verbatim>\<open>a\<close> and \<^verbatim>\<open>a.b\<close>, the key \<^verbatim>\<open>a.c\<close> in
  the first only and none in the second only.
\<close>

theorem three_way_partition_witness:
  "main
     (Inr (JDict [(str ''a'', JDict [(str ''b'', JStr (str ''hello'')), (str ''c'', JStr [])])]))
     (Inr (JDict [(str ''a'', JDict [(str ''b'', JStr (str ''hallo''))])])) \<noteq> None
   \<and> de_keys (the (main
        (Inr (JDict [(str ''a'', JDict [(str ''b'', JStr (str ''hello'')), (str ''c'', JStr [])])]))
        (Inr (JDict [(str ''a'', JDict [(str ''b'', JStr (str ''hallo''))])])))) = {str ''a'', str ''a.b'', str ''a.c''}
   \<and> en_keys (the (main
        (Inr (JDict [(str ''a'', JDict [(str ''b'', JStr (str ''hello'')), (str ''c'', JStr [])])]))
        (Inr (JDict [(str ''a'', JDict [(str ''b'', JStr (str ''hallo''))])])))) = {str ''a'', str ''a.b''}
   \<and> common_keys (the (main
        (Inr (JDict [(str ''a'', JDict [(str ''b'', JStr (str ''hello'')), (str ''c'', JStr [])])]))
        (Inr (JDict [(str ''a'', JDict [(str ''b'', JStr (str ''hallo''))])])))) = {str ''a'', str ''a.b''}
   \<and> only_de (the (main
        (Inr (JDict [(str ''a'', JDict [(str ''b'', JStr (str ''hello'')), (str ''c'', JStr [])])]))
        (Inr (JDict [(str ''a'', JDict [(str ''b'', JStr (str ''hallo''))])])))) = {str ''a.c''}
   \<and> only_en (the (main
        (Inr (JDict [(str ''a'', JDict [(str ''b'', JStr (str ''hello'')), (str ''c'', JStr [])])]))
        (Inr (JDict [(str ''a'', JDict [(str ''b'', JStr (str ''hallo''))])])))) = {}"
proof -
  let ?de = "JDict [(str ''a'', JDict [(str ''b'', JStr (str ''hello'')), (str ''c'', JStr [])])]"
  let ?en = "JDict [(str ''a'', JDict [(str ''b'', JStr (str ''hallo''))])]"
  obtain r where r: "main (Inr ?de) (Inr ?en) = Some r"
    using main_both_loaded [of ?de ?en] by auto
  have dk: "set (get_all_keys ?de []) = {str ''a'', str ''a.b'', str ''a.c''}"
    by (simp add: str_def current_key_def dot_def)
  have ek: "set (get_all_keys ?en []) = {str ''a'', str ''a.b''}"
    by (simp add: str_def current_key_def dot_def)
  have k: "de_keys r = {str ''a'', str ''a.b'', str ''a.c''}"
      "en_keys r = {str ''a'', str ''a.b''}"
    unfolding main_keys [OF r] by (rule dk, rule ek)
  from three_way_partition [of "de_keys r" "en_keys r" "Inr ?de" "Inr ?en" r] r
  have p: "only_de r = de_keys r - en_keys r" "only_en r = en_keys r - de_keys r"
      "common_keys r = de_keys r \<inter> en_keys r"
    by simp_all
  have ne: "str ''a.c'' \<noteq> str ''a''" "str ''a.c'' \<noteq> str ''a.b''"
    by (simp_all add: str_def)
  have "common_keys r = {str ''a'', str ''a.b''}" "only_de r = {str ''a.c''}" "only_en r = {}"
    unfolding p k using ne by auto
  with k r show ?thesis by (simp only: option.sel simp_thms not_None_eq option.simps)

qed

text \<open>
  C5 as stated fails in its last clause. \<open>main\<close> holds no \<^verbatim>\<open>assert\<close> statement, and
  nothing after lines 92 to 94 tests the three parts: the issue list of lines 147 to
  159 is built, with no failure, from two parts that overlap.
\<close>

theorem three_way_partition_counterexample:
  "{str ''k''} \<inter> {str ''k''} \<noteq> ({} :: pystr set)
   \<and> collect_issues [] [] {str ''k''} {str ''k''} [] [] = [OnlyDe 1, OnlyEn 1]"
  by (simp add: collect_issues_def)

text \<open>
  C6. In a run that reaches the verdict, the report passes exactly when the six lists
  of findings are all empty: the duplicates of each locale, the keys of one locale
  only, in either direction, and the empty values of each locale. The list of issues
  behind the verdict is a function of these six collected findings.
\<close>

theorem verdict_from_findings:
  assumes "main de_src en_src = Some r"
  shows "(passed r \<longleftrightarrow>
            de_duplicates r = [] \<and> en_duplicates r = [] \<and> only_de r = {} \<and> only_en r = {}
            \<and> de_empty r = [] \<and> en_empty r = [])
         \<and> issues r = collect_issues (de_duplicates r) (en_duplicates r) (only_de r) (only_en r)
                         (de_empty r) (en_empty r)"
proof -
  have i: "issues r = collect_issues (de_duplicates r) (en_duplicates r) (only_de r) (only_en r)
                         (de_empty r) (en_empty r)"
    using assms by (rule main_Some) simp
  then have "passed r \<longleftrightarrow>
            de_duplicates r = [] \<and> en_duplicates r = [] \<and> only_de r = {} \<and> only_en r = {}
            \<and> de_empty r = [] \<and> en_empty r = []"
    by (simp only: passed_def collect_issues_empty)
  then show ?thesis using i by blast
qed

text \<open>
  The scenario of the specification again: one key of the first locale only and one
  empty value, so the verdict is a failure.
\<close>

theorem verdict_from_findings_witness:
  "main
     (Inr (JDict [(str ''a'', JDict [(str ''b'', JStr (str ''hello'')), (str ''c'', JStr [])])]))
     (Inr (JDict [(str ''a'', JDict [(str ''b'', JStr (str ''hallo''))])])) \<noteq> None
   \<and> de_empty (the (main
        (Inr (JDict [(str ''a'', JDict [(str ''b'', JStr (str ''hello'')), (str ''c'', JStr [])])]))
        (Inr (JDict [(str ''a'', JDict [(str ''b'', JStr (str ''hallo''))])])))) = [str ''a.c'']
   \<and> \<not> passed (the (main
        (Inr (JDict [(str ''a'', JDict [(str ''b'', JStr (str ''hello'')), (str ''c'', JStr [])])]))
        (Inr (JDict [(str ''a'', JDict [(str ''b'', JStr (str ''hallo''))])]))))"
proof -
  let ?de = "JDict [(str ''a'', JDict [(str ''b'', JStr (str ''hello'')), (str ''c'', JStr [])])]"
  let ?en = "JDict [(str ''a'', JDict [(str ''b'', JStr (str ''hallo''))])]"
  obtain r where r: "main (Inr ?de) (Inr ?en) = Some r"
    using main_both_loaded [of ?de ?en] by auto
  have "check_empty_values ?de [] (str ''Deutsch'') = [str ''a.c'']"
    by (simp add: str_def current_key_def dot_def strip_def isspace_def)
  with r have e: "de_empty r = [str ''a.c'']"
    by (auto elim!: main_Some)
  with verdict_from_findings [OF r] have "\<not> passed r" by simp
  with e show ?thesis unfolding r option.sel by simp
qed

text \<open>
  C8. If reading or parsing either catalog raises, \<open>load_translations\<close> returns the
  pair \<^verbatim>\<open>(None, None)\<close> and \<open>main\<close> returns at once, with no report of any check.
\<close>

theorem failed_load_ends_run:
  assumes "de_src = Inl e \<or> en_src = Inl e"
  shows "load_translations de_src en_src = (JNull, JNull) \<and> main de_src en_src = None"
proof -
  from assms have "load_translations de_src en_src = (JNull, JNull)"
    by (auto simp: load_translations_def split: sum.splits)
  then show ?thesis by (simp add: main_def)
qed

text \<open>The German catalog loads and the English one is malformed.\<close>

theorem failed_load_ends_run_witness:
  "load_translations (Inr (JDict [(str ''a'', JStr (str ''x''))])) (Inl JSONDecodeError) = (JNull, JNull)
   \<and> main (Inr (JDict [(str ''a'', JStr (str ''x''))])) (Inl JSONDecodeError) = None"
  using failed_load_ends_run
    [of "Inr (JDict [(str ''a'', JStr (str ''x''))])" JSONDecodeError "Inl JSONDecodeError"]
  by simp

text \<open>
  C9 says that the path of a key below the root is the path of its parent, a dot and
  the key. In \<^verbatim>\<open>{"": {"b": "x"}}\<close> the parent of \<^verbatim>\<open>b\<close> has the empty path, and the test
  \<^verbatim>\<open>if prefix\<close> takes it for the root: the flattener emits \<^verbatim>\<open>b\<close>, where the dotted
  path is \<^verbatim>\<open>.b\<close>. By \<open>get_all_keys_dotted\<close> the flattener does emit the dotted path
  of every node when no key of the root is empty.
\<close>

theorem empty_top_level_key_loses_dot:
  "get_all_keys (JDict [(str '''', JDict [(str ''b'', JStr (str ''x''))])]) []
     = [str '''', str ''b'']
   \<and> map (\<lambda>(ks, v). dotted ks) (nodes (JDict [(str '''', JDict [(str ''b'', JStr (str ''x''))])]))
     = [str '''', str ''.b'']"
  by (simp add: str_def current_key_def dot_def)

end

